theory Spec2Isabelle
  imports Main "HOL-Library.Word" "HOL-Library.Multiset"
begin

section \<open>Data model of \<open>mem_utils.hpp\<close>\<close>

text \<open>
  The header is modelled for a 64-bit target: \<open>size_t\<close> is a 64-bit unsigned word whose
  arithmetic wraps, \<open>char\<close> is a byte, a pointer is 8 bytes and \<open>int\<close> is a 32-bit signed
  integer (its overflow is undefined behaviour and is modelled as a fault, so the counter is
  an \<open>int\<close> together with its two bounds).
\<close>

type_synonym byte = "8 word"
type_synonym size_t = "64 word"

definition INT_MAX :: int where
  "INT_MAX = 2147483647"

definition INT_MIN :: int where
  "INT_MIN = - 2147483648"

text \<open>
  A call either returns, leaves by a \<open>throw mem_exception(...)\<close>, or has no defined result:
  \<^item> \<open>OutOfBounds\<close>: a \<open>memcpy\<close> or a store that leaves its block;
  \<^item> \<open>NullPointer\<close>: \<open>memset\<close> on the null pointer of a failed allocation;
  \<^item> \<open>UseAfterFree\<close>: an access to the mutex, the pointer cell or the storage after the
    destructor released them;
  \<^item> \<open>Deadlock\<close>: \<open>mutex.lock()\<close> on the mutex that is already held (there is one thread
    of control in this model);
  \<^item> \<open>SignedOverflow\<close>: \<open>++\<close> or \<open>--\<close> on the \<open>int\<close> counter at its bound.

  The three \<open>throw\<close> sites of the header are the constructors of \<open>mem_exception\<close>:
  "cannot allocate memory pointer by allocator ..." and "cannot allocate memory by allocator
  ..." in the constructor, "cannot read buffer because its capacity is full" in \<open>write\<close>.
\<close>

datatype fault = OutOfBounds | NullPointer | UseAfterFree | Deadlock | SignedOverflow

datatype mem_exception = Cannot_allocate_pointer | Cannot_allocate_memory | Capacity_full

datatype ('a, 's) outcome = Returns 'a | Throws mem_exception 's | Fault fault

text \<open>
  What every handle of one construction aliases: \<open>size_t& capacity\<close>, \<open>int *ref_counter\<close>,
  \<open>std::mutex& mutex\<close> and \<open>char **ptr\<close> with the block \<open>*ptr\<close>. \<open>storage\<close> is the block
  \<open>*ptr\<close>; \<open>live\<close> is false once the destructor has released the block, the pointer cell
  and the mutex (the counter and the capacity cell are never deleted by the header, so they
  stay readable).
\<close>

record cell =
  capacity :: size_t
  storage :: "byte list"
  ref_counter :: int
  locked :: bool
  live :: bool

text \<open>The fields of \<open>mem_buffer\<close> that each handle holds by value.\<close>

record mem_buffer =
  pos :: size_t
  single_expand_size :: size_t
  enable_auto_release :: bool
  enable_auto_expand :: bool

text \<open>
  \<open>memcpy(dst + d, src + s, n)\<close> on two blocks given as lists: \<open>None\<close> when either range
  leaves its block.
\<close>

definition memcpy :: "byte list \<Rightarrow> nat \<Rightarrow> byte list \<Rightarrow> nat \<Rightarrow> nat \<Rightarrow> byte list option" where
  "memcpy dst d src s n =
     (if d + n \<le> length dst \<and> s + n \<le> length src
      then Some (take d dst @ take n (drop s src) @ drop (d + n) dst)
      else None)"

section \<open>\<open>mem_buffer\<close>\<close>

text \<open>
  \<open>explicit mem_buffer(size_t capacity, std::mutex *mutex = new std::mutex)\<close>, with the
  default mutex. The two Booleans say whether the first and the second call of
  \<open>Allocator::alloc\<close> return a block. The first block, of \<open>capacity\<close> bytes, holds the
  \<open>char*\<close> that \<open>*ptr = ...\<close> stores: 8 bytes.
\<close>

definition mem_buffer_new :: "bool \<Rightarrow> bool \<Rightarrow> size_t \<Rightarrow> (mem_buffer \<times> cell, unit) outcome" where
  "mem_buffer_new ptr_ok block_ok cap =
     (if \<not> ptr_ok then Throws Cannot_allocate_pointer ()
      else if unat cap < 8 then Fault OutOfBounds
      else if \<not> block_ok then Throws Cannot_allocate_memory ()
      else Returns
        (\<lparr>pos = 0, single_expand_size = 16 * 1024,
          enable_auto_release = True, enable_auto_expand = True\<rparr>,
         \<lparr>capacity = cap, storage = replicate (unat cap) 0, ref_counter = 1,
          locked = False, live = True\<rparr>))"

text \<open>
  \<open>mem_buffer(mem_buffer const& buffer)\<close>: the initialiser list copies the two flags and
  \<open>pos\<close>; \<open>single_expand_size\<close> is not in it and takes its default member initialiser.
\<close>

definition mem_buffer_copy :: "mem_buffer \<Rightarrow> cell \<Rightarrow> (mem_buffer \<times> cell, cell) outcome" where
  "mem_buffer_copy h c =
     (if \<not> live c then Fault UseAfterFree
      else if locked c then Fault Deadlock
      else let c1 = c\<lparr>locked := True\<rparr> in
        if INT_MAX \<le> ref_counter c1 then Fault SignedOverflow
        else Returns
          (\<lparr>pos = pos h, single_expand_size = 16 * 1024,
            enable_auto_release = enable_auto_release h,
            enable_auto_expand = enable_auto_expand h\<rparr>,
           c1\<lparr>ref_counter := ref_counter c1 + 1, locked := False\<rparr>))"

text \<open>
  \<open>~mem_buffer()\<close>. The Boolean returned says whether the branch that calls
  \<open>Allocator::release\<close> and \<open>delete &mutex\<close> ran.
\<close>

definition mem_buffer_dtor :: "mem_buffer \<Rightarrow> cell \<Rightarrow> (bool \<times> cell, cell) outcome" where
  "mem_buffer_dtor h c =
     (if \<not> live c then Fault UseAfterFree
      else if locked c then Fault Deadlock
      else let c1 = c\<lparr>locked := True\<rparr> in
        if ref_counter c1 \<le> INT_MIN then Fault SignedOverflow
        else let c2 = c1\<lparr>ref_counter := ref_counter c1 - 1, locked := False\<rparr> in
          if ref_counter c2 = 0 \<and> enable_auto_release h
          then Returns (True, c2\<lparr>live := False\<rparr>)
          else Returns (False, c2))"

text \<open>\<open>bool read(char *dst, size_t const len, size_t const off) const\<close>.\<close>

definition buffer_read_at ::
  "mem_buffer \<Rightarrow> cell \<Rightarrow> byte list \<Rightarrow> size_t \<Rightarrow> size_t
    \<Rightarrow> ((bool \<times> byte list) \<times> mem_buffer \<times> cell, cell) outcome" where
  "buffer_read_at h c dst len off =
     (if capacity c < len + off then Returns ((False, dst), h, c)
      else if \<not> live c then Fault UseAfterFree
      else if locked c then Fault Deadlock
      else let c1 = c\<lparr>locked := True\<rparr> in
        case memcpy dst 0 (storage c1) (unat off) (unat len) of
          None \<Rightarrow> Fault OutOfBounds
        | Some dst' \<Rightarrow> Returns ((True, dst'), h, c1\<lparr>locked := False\<rparr>))"

text \<open>\<open>bool read(char *dst, size_t const len)\<close>.\<close>

definition buffer_read ::
  "mem_buffer \<Rightarrow> cell \<Rightarrow> byte list \<Rightarrow> size_t
    \<Rightarrow> ((bool \<times> byte list) \<times> mem_buffer \<times> cell, cell) outcome" where
  "buffer_read h c dst len =
     (case buffer_read_at h c dst len (pos h) of
        Returns (r, h1, c1) \<Rightarrow> Returns (r, h1\<lparr>pos := pos h1 + len\<rparr>, c1)
      | Throws e s \<Rightarrow> Throws e s
      | Fault f \<Rightarrow> Fault f)"

text \<open>
  \<open>bool expand()\<close>. The Boolean argument says whether \<open>Allocator::alloc(new_capacity)\<close>
  returns a block; its result is passed to \<open>memset\<close> unchecked.
\<close>

definition buffer_expand ::
  "bool \<Rightarrow> mem_buffer \<Rightarrow> cell \<Rightarrow> (bool \<times> mem_buffer \<times> cell, cell) outcome" where
  "buffer_expand alloc_ok h c =
     (if enable_auto_release h \<and> enable_auto_expand h then
        let new_capacity = capacity c + single_expand_size h in
        if \<not> alloc_ok then Fault NullPointer
        else if \<not> live c then Fault UseAfterFree
        else case memcpy (replicate (unat new_capacity) 0) 0 (storage c) 0 (unat (capacity c)) of
            None \<Rightarrow> Fault OutOfBounds
          | Some new_ptr \<Rightarrow> Returns (True, h, c\<lparr>storage := new_ptr, capacity := new_capacity\<rparr>)
      else Returns (False, h, c))"

text \<open>
  \<open>bool write(const char *src, size_t const len, size_t const off)\<close>. \<open>write_copy\<close> is its
  tail: \<open>memcpy(*ptr + off, src, len); mutex.unlock(); return true;\<close>. The result of
  \<open>expand()\<close> is not looked at, and the \<open>throw\<close> leaves the mutex held.
\<close>

definition write_copy ::
  "mem_buffer \<Rightarrow> cell \<Rightarrow> byte list \<Rightarrow> size_t \<Rightarrow> size_t
    \<Rightarrow> (bool \<times> mem_buffer \<times> cell, cell) outcome" where
  "write_copy h c src len off =
     (case memcpy (storage c) (unat off) src 0 (unat len) of
        None \<Rightarrow> Fault OutOfBounds
      | Some blk \<Rightarrow> Returns (True, h, c\<lparr>storage := blk, locked := False\<rparr>))"

definition buffer_write_at ::
  "bool \<Rightarrow> mem_buffer \<Rightarrow> cell \<Rightarrow> byte list \<Rightarrow> size_t \<Rightarrow> size_t
    \<Rightarrow> (bool \<times> mem_buffer \<times> cell, cell) outcome" where
  "buffer_write_at alloc_ok h c src len off =
     (if \<not> live c then Fault UseAfterFree
      else if locked c then Fault Deadlock
      else let c1 = c\<lparr>locked := True\<rparr> in
        if capacity c1 < len + off then
          (if enable_auto_expand h then
             (case buffer_expand alloc_ok h c1 of
                Returns (r, h2, c2) \<Rightarrow> write_copy h2 c2 src len off
              | Throws e s \<Rightarrow> Throws e s
              | Fault f \<Rightarrow> Fault f)
           else Throws Capacity_full c1)
        else write_copy h c1 src len off)"

text \<open>\<open>bool write(const char *src, const size_t len)\<close>.\<close>

definition buffer_write ::
  "bool \<Rightarrow> mem_buffer \<Rightarrow> cell \<Rightarrow> byte list \<Rightarrow> size_t
    \<Rightarrow> (bool \<times> mem_buffer \<times> cell, cell) outcome" where
  "buffer_write alloc_ok h c src len =
     (case buffer_write_at alloc_ok h c src len (pos h) of
        Returns (r, h1, c1) \<Rightarrow> Returns (r, h1\<lparr>pos := pos h1 + len\<rparr>, c1)
      | Throws e s \<Rightarrow> Throws e s
      | Fault f \<Rightarrow> Fault f)"

text \<open>
  A cell between two calls of one thread: not released, mutex free, and the block \<open>*ptr\<close>
  has \<open>capacity\<close> bytes.
\<close>

definition cell_ok :: "cell \<Rightarrow> bool" where
  "cell_ok c = (live c \<and> \<not> locked c \<and> length (storage c) = unat (capacity c))"

text \<open>
  The typed overloads \<open>write(T const& t)\<close> and \<open>read(T& t)\<close>: \<open>t\<close> is given by its
  \<open>sizeof(T)\<close> bytes.
\<close>

definition buffer_write_value ::
  "bool \<Rightarrow> mem_buffer \<Rightarrow> cell \<Rightarrow> byte list \<Rightarrow> (bool \<times> mem_buffer \<times> cell, cell) outcome" where
  "buffer_write_value alloc_ok h c t = buffer_write alloc_ok h c t (of_nat (length t))"

definition buffer_read_value ::
  "mem_buffer \<Rightarrow> cell \<Rightarrow> byte list
    \<Rightarrow> ((bool \<times> byte list) \<times> mem_buffer \<times> cell, cell) outcome" where
  "buffer_read_value h c t = buffer_read h c t (of_nat (length t))"

text \<open>\<open>auto_expand_size(size_t)\<close>, \<open>position(size_t)\<close> and \<open>rewind()\<close>.\<close>

definition set_auto_expand_size :: "mem_buffer \<Rightarrow> size_t \<Rightarrow> mem_buffer" where
  "set_auto_expand_size h n = h\<lparr>single_expand_size := n\<rparr>"

definition set_position :: "mem_buffer \<Rightarrow> size_t \<Rightarrow> mem_buffer" where
  "set_position h p = h\<lparr>pos := p\<rparr>"

definition rewind :: "mem_buffer \<Rightarrow> mem_buffer" where
  "rewind h = h\<lparr>pos := 0\<rparr>"

section \<open>\<open>mem_stream\<close>\<close>

text \<open>
  \<open>mem_stream<T, Buffer>\<close>: \<open>spos\<close> is its field \<open>pos\<close>, \<open>buffer\<close> the handle it holds by
  value, \<open>step\<close> is \<open>sizeof(T)\<close>. A value of type \<open>T\<close> is given by its bytes.
\<close>

record mem_stream =
  spos :: size_t
  buffer :: mem_buffer
  eof_bit :: bool
  step :: size_t

text \<open>
  \<open>explicit mem_stream(Buffer& buffer)\<close>, which \<open>get_byte_stream()\<close>, \<open>get_char_stream()\<close>,
  \<open>get_char8_stream()\<close> (\<open>sz = 1\<close>), \<open>get_char16_stream()\<close> (\<open>sz = 2\<close>) and
  \<open>get_char32_stream()\<close> (\<open>sz = 4\<close>) call, and the defaulted copy constructor.
\<close>

definition mem_stream_new :: "size_t \<Rightarrow> mem_buffer \<Rightarrow> cell \<Rightarrow> (mem_stream \<times> cell, cell) outcome" where
  "mem_stream_new sz h c =
     (case mem_buffer_copy h c of
        Returns (b, c1) \<Rightarrow> Returns (\<lparr>spos = 0, buffer = b, eof_bit = False, step = sz\<rparr>, c1)
      | Throws e x \<Rightarrow> Throws e x
      | Fault f \<Rightarrow> Fault f)"

definition mem_stream_copy :: "mem_stream \<Rightarrow> cell \<Rightarrow> (mem_stream \<times> cell, cell) outcome" where
  "mem_stream_copy s c =
     (case mem_buffer_copy (buffer s) c of
        Returns (b, c1) \<Rightarrow> Returns (s\<lparr>buffer := b\<rparr>, c1)
      | Throws e x \<Rightarrow> Throws e x
      | Fault f \<Rightarrow> Fault f)"

text \<open>\<open>bool get(T& t)\<close>; \<open>t\<close> holds the bytes of the caller's object.\<close>

definition stream_get ::
  "mem_stream \<Rightarrow> cell \<Rightarrow> byte list \<Rightarrow> ((bool \<times> byte list) \<times> mem_stream \<times> cell, cell) outcome" where
  "stream_get s c t =
     (case buffer_read_at (buffer s) c t (step s) (spos s) of
        Returns ((r, t'), b, c1) \<Rightarrow>
          let s1 = s\<lparr>buffer := b\<rparr>;
              s2 = (if r then s1\<lparr>spos := spos s1 + step s1\<rparr> else s1);
              s3 = (if capacity c1 \<le> spos s2 then s2\<lparr>eof_bit := True\<rparr> else s2)
          in Returns ((r, t'), s3, c1)
      | Throws e x \<Rightarrow> Throws e x
      | Fault f \<Rightarrow> Fault f)"

text \<open>
  \<open>T get()\<close>: \<open>T t; get(t); return t;\<close>. The local \<open>t\<close> is not initialised; \<open>t0\<close> stands for
  the bytes it happens to hold.
\<close>

definition stream_get_value ::
  "mem_stream \<Rightarrow> cell \<Rightarrow> byte list \<Rightarrow> (byte list \<times> mem_stream \<times> cell, cell) outcome" where
  "stream_get_value s c t0 =
     (case stream_get s c t0 of
        Returns ((r, t), s1, c1) \<Rightarrow> Returns (t, s1, c1)
      | Throws e x \<Rightarrow> Throws e x
      | Fault f \<Rightarrow> Fault f)"

text \<open>\<open>T peek()\<close>: \<open>T t = get(); pos--; return t;\<close>.\<close>

definition stream_peek ::
  "mem_stream \<Rightarrow> cell \<Rightarrow> byte list \<Rightarrow> (byte list \<times> mem_stream \<times> cell, cell) outcome" where
  "stream_peek s c t0 =
     (case stream_get_value s c t0 of
        Returns (t, s1, c1) \<Rightarrow> Returns (t, s1\<lparr>spos := spos s1 - 1\<rparr>, c1)
      | Throws e x \<Rightarrow> Throws e x
      | Fault f \<Rightarrow> Fault f)"

text \<open>\<open>forward()\<close>, \<open>forward(len)\<close>, \<open>back()\<close>, \<open>back(len)\<close> and \<open>reset()\<close>.\<close>

definition stream_forward :: "mem_stream \<Rightarrow> cell \<Rightarrow> mem_stream" where
  "stream_forward s c =
     (let s1 = s\<lparr>spos := spos s + step s\<rparr>
      in if capacity c \<le> spos s1 then s1\<lparr>eof_bit := True\<rparr> else s1)"

definition stream_forward_n :: "mem_stream \<Rightarrow> cell \<Rightarrow> size_t \<Rightarrow> mem_stream" where
  "stream_forward_n s c len =
     (let s1 = s\<lparr>spos := spos s + step s * len\<rparr>
      in if capacity c \<le> spos s1 then s1\<lparr>eof_bit := True\<rparr> else s1)"

definition stream_back :: "mem_stream \<Rightarrow> cell \<Rightarrow> mem_stream" where
  "stream_back s c =
     (let s1 = s\<lparr>spos := spos s - step s\<rparr>
      in if spos s1 < capacity c then s1\<lparr>eof_bit := False\<rparr> else s1)"

definition stream_back_n :: "mem_stream \<Rightarrow> cell \<Rightarrow> size_t \<Rightarrow> mem_stream" where
  "stream_back_n s c len =
     (let s1 = s\<lparr>spos := spos s - step s * len\<rparr>
      in if spos s1 < capacity c then s1\<lparr>eof_bit := False\<rparr> else s1)"

definition stream_reset :: "mem_stream \<Rightarrow> mem_stream" where
  "stream_reset s = s\<lparr>spos := 0, eof_bit := False\<rparr>"

text \<open>\<open>T peek(size_t len)\<close>: \<open>forward(len - 1); T t = get(); back(len); return t;\<close>.\<close>

definition stream_peek_n ::
  "mem_stream \<Rightarrow> cell \<Rightarrow> byte list \<Rightarrow> size_t \<Rightarrow> (byte list \<times> mem_stream \<times> cell, cell) outcome" where
  "stream_peek_n s c t0 len =
     (case stream_get_value (stream_forward_n s c (len - 1)) c t0 of
        Returns (t, s1, c1) \<Rightarrow> Returns (t, stream_back_n s1 c1 len, c1)
      | Throws e x \<Rightarrow> Throws e x
      | Fault f \<Rightarrow> Fault f)"

text \<open>\<open>bool put(T const& t)\<close>.\<close>

definition stream_put ::
  "bool \<Rightarrow> mem_stream \<Rightarrow> cell \<Rightarrow> byte list \<Rightarrow> (bool \<times> mem_stream \<times> cell, cell) outcome" where
  "stream_put alloc_ok s c t =
     (case buffer_write_at alloc_ok (buffer s) c t (step s) (spos s) of
        Returns (r, b, c1) \<Rightarrow> Returns (r, s\<lparr>buffer := b, spos := spos s + step s\<rparr>, c1)
      | Throws e x \<Rightarrow> Throws e x
      | Fault f \<Rightarrow> Fault f)"

text \<open>\<open>bool eof() const\<close> and \<open>bool eof(size_t s)\<close>.\<close>

definition eof :: "mem_stream \<Rightarrow> bool" where
  "eof s = eof_bit s"

definition eof_n :: "mem_stream \<Rightarrow> cell \<Rightarrow> size_t \<Rightarrow> bool" where
  "eof_n s c n = (capacity c \<le> spos s + n)"

section \<open>Callers\<close>

text \<open>
  \<open>copy_n n h c\<close> copy-constructs \<open>n\<close> handles from \<open>h\<close>, one after the other;
  \<open>dtor_all hs c\<close> runs the destructor of each handle of \<open>hs\<close> in turn and counts the
  destructors that released the storage.
\<close>

fun copy_n :: "nat \<Rightarrow> mem_buffer \<Rightarrow> cell \<Rightarrow> (mem_buffer list \<times> cell, cell) outcome" where
  "copy_n 0 h c = Returns ([], c)"
| "copy_n (Suc n) h c =
     (case mem_buffer_copy h c of
        Returns (h1, c1) \<Rightarrow>
          (case copy_n n h c1 of
             Returns (hs, c2) \<Rightarrow> Returns (h1 # hs, c2)
           | Throws e x \<Rightarrow> Throws e x
           | Fault f \<Rightarrow> Fault f)
      | Throws e x \<Rightarrow> Throws e x
      | Fault f \<Rightarrow> Fault f)"

fun dtor_all :: "mem_buffer list \<Rightarrow> cell \<Rightarrow> (nat \<times> cell, cell) outcome" where
  "dtor_all [] c = Returns (0, c)"
| "dtor_all (h # hs) c =
     (case mem_buffer_dtor h c of
        Returns (released, c1) \<Rightarrow>
          (case dtor_all hs c1 of
             Returns (k, c2) \<Rightarrow> Returns ((if released then 1 else 0) + k, c2)
           | Throws e x \<Rightarrow> Throws e x
           | Fault f \<Rightarrow> Fault f)
      | Throws e x \<Rightarrow> Throws e x
      | Fault f \<Rightarrow> Fault f)"

text \<open>
  The calls a program can make on a handle and on a stream that change the handle, the
  stream or the cell, each with its arguments (the Boolean of a call that may allocate
  says whether the allocation succeeds), and what they leave behind.
\<close>

datatype buffer_call =
    Read_at "byte list" size_t size_t
  | Read "byte list" size_t
  | Read_value "byte list"
  | Write_at bool "byte list" size_t size_t
  | Write bool "byte list" size_t
  | Write_value bool "byte list"
  | Set_auto_expand_size size_t
  | Set_position size_t
  | Rewind
  | Expand bool

fun state_of :: "('r \<times> 'h \<times> cell, cell) outcome \<Rightarrow> ('h \<times> cell, cell) outcome" where
  "state_of (Returns (r, h, c)) = Returns (h, c)"
| "state_of (Throws e x) = Throws e x"
| "state_of (Fault f) = Fault f"

fun call_buffer :: "buffer_call \<Rightarrow> mem_buffer \<Rightarrow> cell \<Rightarrow> (mem_buffer \<times> cell, cell) outcome" where
  "call_buffer (Read_at dst len off) h c = state_of (buffer_read_at h c dst len off)"
| "call_buffer (Read dst len) h c = state_of (buffer_read h c dst len)"
| "call_buffer (Read_value t) h c = state_of (buffer_read_value h c t)"
| "call_buffer (Write_at a src len off) h c = state_of (buffer_write_at a h c src len off)"
| "call_buffer (Write a src len) h c = state_of (buffer_write a h c src len)"
| "call_buffer (Write_value a t) h c = state_of (buffer_write_value a h c t)"
| "call_buffer (Set_auto_expand_size n) h c = Returns (set_auto_expand_size h n, c)"
| "call_buffer (Set_position p) h c = Returns (set_position h p, c)"
| "call_buffer Rewind h c = Returns (rewind h, c)"
| "call_buffer (Expand a) h c = state_of (buffer_expand a h c)"

datatype stream_call =
    Get "byte list"
  | Get_value "byte list"
  | Peek "byte list"
  | Peek_n "byte list" size_t
  | Put bool "byte list"
  | Reset
  | Back
  | Back_n size_t
  | Forward
  | Forward_n size_t

fun call_stream :: "stream_call \<Rightarrow> mem_stream \<Rightarrow> cell \<Rightarrow> (mem_stream \<times> cell, cell) outcome" where
  "call_stream (Get t) s c = state_of (stream_get s c t)"
| "call_stream (Get_value t0) s c = state_of (stream_get_value s c t0)"
| "call_stream (Peek t0) s c = state_of (stream_peek s c t0)"
| "call_stream (Peek_n t0 len) s c = state_of (stream_peek_n s c t0 len)"
| "call_stream (Put a t) s c = state_of (stream_put a s c t)"
| "call_stream Reset s c = Returns (stream_reset s, c)"
| "call_stream Back s c = Returns (stream_back s c, c)"
| "call_stream (Back_n len) s c = Returns (stream_back_n s c len, c)"
| "call_stream Forward s c = Returns (stream_forward s c, c)"
| "call_stream (Forward_n len) s c = Returns (stream_forward_n s c len, c)"

text \<open>
  A program state: the handles and the streams that exist, and the cell they share. The
  reachable states start at a construction; each step is a copy, a new stream, a call
  that returns or throws, or a destruction. A step whose call has no defined result
  leads nowhere.
\<close>

record world =
  handles :: "mem_buffer list"
  streams :: "mem_stream list"
  shared :: cell

inductive reachable :: "world \<Rightarrow> bool" where
  construct:
    "mem_buffer_new ptr_ok block_ok cap = Returns (h, c)
     \<Longrightarrow> reachable \<lparr>handles = [h], streams = [], shared = c\<rparr>"
| copy:
    "reachable w \<Longrightarrow> i < length (handles w)
     \<Longrightarrow> mem_buffer_copy (handles w ! i) (shared w) = Returns (h, c)
     \<Longrightarrow> reachable (w\<lparr>handles := handles w @ [h], shared := c\<rparr>)"
| new_stream:
    "reachable w \<Longrightarrow> i < length (handles w)
     \<Longrightarrow> mem_stream_new sz (handles w ! i) (shared w) = Returns (s, c)
     \<Longrightarrow> reachable (w\<lparr>streams := streams w @ [s], shared := c\<rparr>)"
| copy_stream:
    "reachable w \<Longrightarrow> j < length (streams w)
     \<Longrightarrow> mem_stream_copy (streams w ! j) (shared w) = Returns (s, c)
     \<Longrightarrow> reachable (w\<lparr>streams := streams w @ [s], shared := c\<rparr>)"
| buffer_returns:
    "reachable w \<Longrightarrow> i < length (handles w)
     \<Longrightarrow> call_buffer call (handles w ! i) (shared w) = Returns (h, c)
     \<Longrightarrow> reachable (w\<lparr>handles := (handles w)[i := h], shared := c\<rparr>)"
| buffer_throws:
    "reachable w \<Longrightarrow> i < length (handles w)
     \<Longrightarrow> call_buffer call (handles w ! i) (shared w) = Throws e c
     \<Longrightarrow> reachable (w\<lparr>shared := c\<rparr>)"
| stream_returns:
    "reachable w \<Longrightarrow> j < length (streams w)
     \<Longrightarrow> call_stream scall (streams w ! j) (shared w) = Returns (s, c)
     \<Longrightarrow> reachable (w\<lparr>streams := (streams w)[j := s], shared := c\<rparr>)"
| stream_throws:
    "reachable w \<Longrightarrow> j < length (streams w)
     \<Longrightarrow> call_stream scall (streams w ! j) (shared w) = Throws e c
     \<Longrightarrow> reachable (w\<lparr>shared := c\<rparr>)"
| destroy:
    "reachable w \<Longrightarrow> i < length (handles w)
     \<Longrightarrow> mem_buffer_dtor (handles w ! i) (shared w) = Returns (r, c)
     \<Longrightarrow> reachable (w\<lparr>handles := take i (handles w) @ drop (Suc i) (handles w), shared := c\<rparr>)"
| destroy_stream:
    "reachable w \<Longrightarrow> j < length (streams w)
     \<Longrightarrow> mem_buffer_dtor (buffer (streams w ! j)) (shared w) = Returns (r, c)
     \<Longrightarrow> reachable (w\<lparr>streams := take j (streams w) @ drop (Suc j) (streams w), shared := c\<rparr>)"

section \<open>Concrete handles and cells\<close>

text \<open>
  The handle and the cell that \<open>mem_buffer<> b(8)\<close> constructs when both allocations
  succeed; the concrete instances below start from them.
\<close>

definition handle8 :: mem_buffer where
  "handle8 = \<lparr>pos = 0, single_expand_size = 16 * 1024,
     enable_auto_release = True, enable_auto_expand = True\<rparr>"

definition cell8 :: cell where
  "cell8 = \<lparr>capacity = 8, storage = [0, 0, 0, 0, 0, 0, 0, 0], ref_counter = 1,
     locked = False, live = True\<rparr>"

text \<open>
  The streams that \<open>b.get_byte_stream()\<close> and \<open>b.get_char32_stream()\<close> construct from
  that handle, and the cell once the stream holds its copy of the handle.
\<close>

definition byte_stream8 :: mem_stream where
  "byte_stream8 = \<lparr>spos = 0, buffer = handle8, eof_bit = False, step = 1\<rparr>"

definition char32_stream8 :: mem_stream where
  "char32_stream8 = \<lparr>spos = 0, buffer = handle8, eof_bit = False, step = 4\<rparr>"

definition shared8 :: cell where
  "shared8 = cell8\<lparr>ref_counter := 2\<rparr>"

section \<open>Properties\<close>

lemma unlock_free: "\<not> locked c \<Longrightarrow> c\<lparr>locked := False\<rparr> = c"
  by (cases c) simp

lemma in_range_not_over:
  fixes len off cap :: size_t
  assumes "unat off + unat len \<le> unat cap"
  shows "\<not> cap < len + off" and "unat (len + off) = unat len + unat off"
proof -
  have "unat cap < 2 ^ 64"
    using unsigned_less [of cap] by simp
  with assms have "unat len + unat off < 2 ^ LENGTH(64)"
    by simp
  then show eq: "unat (len + off) = unat len + unat off"
    by (rule unat_add_lem [THEN iffD1])
  with assms show "\<not> cap < len + off"
    by (simp add: word_less_nat_alt)
qed


lemma replicate8: "replicate 8 x = [x, x, x, x, x, x, x, x]"
  by (simp add: numeral_eq_Suc)

lemma replicate4: "replicate 4 x = [x, x, x, x]"
  by (simp add: numeral_eq_Suc)

lemma mem_buffer_new_8: "mem_buffer_new True True 8 = Returns (handle8, cell8)"
  by (simp add: mem_buffer_new_def handle8_def cell8_def replicate8)

subsection \<open>Writing and reading back a range of the buffer\<close>

text \<open>
  C1. For a byte range \<open>(off, len)\<close> that lies in the buffer (\<open>off + len \<le> capacity\<close> as
  numbers), \<open>write(src, len, off)\<close> returns true, and \<open>read(dst, len, off)\<close> on the cell it
  leaves returns true with the \<open>len\<close> bytes of \<open>src\<close> in the first \<open>len\<close> bytes of \<open>dst\<close>.
  The read may go through any handle of the cell. \<open>src\<close> and \<open>dst\<close> are the caller's
  blocks, of at least \<open>len\<close> bytes.
\<close>

theorem write_then_read_round_trip:
  assumes "cell_ok c"
    and "unat off + unat len \<le> unat (capacity c)"
    and "unat len \<le> length src"
    and "unat len \<le> length dst"
  shows "\<exists>c'. buffer_write_at a h c src len off = Returns (True, h, c')
           \<and> buffer_read_at h' c' dst len off
               = Returns ((True, take (unat len) src @ drop (unat len) dst), h', c')"
proof -
  let ?c' = "c\<lparr>storage := take (unat off) (storage c) @ take (unat len) src
                         @ drop (unat off + unat len) (storage c)\<rparr>"
  from assms(2) have no_over: "\<not> capacity c < len + off"
    by (rule in_range_not_over)
  from assms(1) no_over assms(2,3)
  have w: "buffer_write_at a h c src len off = Returns (True, h, ?c')"
    by (simp add: buffer_write_at_def write_copy_def memcpy_def cell_ok_def Let_def unlock_free)
  from assms(1) no_over assms(2,3,4)
  have r: "buffer_read_at h' ?c' dst len off
             = Returns ((True, take (unat len) src @ drop (unat len) dst), h', ?c')"
    by (simp add: buffer_read_at_def memcpy_def cell_ok_def Let_def unlock_free)
  from w r show ?thesis
    by blast
qed

theorem write_then_read_round_trip_witness:
  "cell_ok cell8 \<and> unat (2 :: size_t) + unat (3 :: size_t) \<le> unat (capacity cell8)
   \<and> (\<exists>c'. buffer_write_at True handle8 cell8 [1, 2, 3] 3 2 = Returns (True, handle8, c')
          \<and> buffer_read_at handle8 c' [9, 9, 9, 9] 3 2 = Returns ((True, [1, 2, 3, 9]), handle8, c'))"
proof -
  have ok: "cell_ok cell8"
    by (simp add: cell_ok_def cell8_def)
  have rng: "unat (2 :: size_t) + unat (3 :: size_t) \<le> unat (capacity cell8)"
    by (simp add: cell8_def)
  show ?thesis
    using ok rng
      write_then_read_round_trip [OF ok rng, of "[1, 2, 3]" "[9, 9, 9, 9]" True handle8 handle8]
    by simp
qed

subsection \<open>Reference counting\<close>

lemma copy_returns:
  assumes "live c" and "\<not> locked c" and "ref_counter c < INT_MAX"
  shows "mem_buffer_copy h c =
           Returns (\<lparr>pos = pos h, single_expand_size = 16 * 1024,
                     enable_auto_release = enable_auto_release h,
                     enable_auto_expand = enable_auto_expand h\<rparr>,
                    c\<lparr>ref_counter := ref_counter c + 1\<rparr>)"
  using assms by (cases c) (simp add: mem_buffer_copy_def Let_def)

lemma dtor_returns:
  assumes "live c" and "\<not> locked c" and "INT_MIN < ref_counter c"
  shows "mem_buffer_dtor h c =
           Returns (ref_counter c = 1 \<and> enable_auto_release h,
                    c\<lparr>ref_counter := ref_counter c - 1,
                      live := \<not> (ref_counter c = 1 \<and> enable_auto_release h)\<rparr>)"
  using assms by (cases c) (simp add: mem_buffer_dtor_def Let_def)

lemma copy_n_returns:
  assumes "live c" and "\<not> locked c" and "ref_counter c + int n \<le> INT_MAX"
  shows "\<exists>hs. copy_n n h c = Returns (hs, c\<lparr>ref_counter := ref_counter c + int n\<rparr>)
            \<and> length hs = n
            \<and> list_all (\<lambda>k. enable_auto_release k = enable_auto_release h) hs"
  using assms
proof (induction n arbitrary: c)
  case 0
  then show ?case by simp
next
  case (Suc n)
  let ?c1 = "c\<lparr>ref_counter := ref_counter c + 1\<rparr>"
  from Suc.prems have lt: "ref_counter c < INT_MAX"
    by simp
  from Suc.prems have "live ?c1" and "\<not> locked ?c1" and "ref_counter ?c1 + int n \<le> INT_MAX"
    by simp_all
  then obtain hs where hs: "copy_n n h ?c1 = Returns (hs, ?c1\<lparr>ref_counter := ref_counter ?c1 + int n\<rparr>)"
    "length hs = n" "list_all (\<lambda>k. enable_auto_release k = enable_auto_release h) hs"
    using Suc.IH [of ?c1] by blast
  have "?c1\<lparr>ref_counter := ref_counter ?c1 + int n\<rparr> = c\<lparr>ref_counter := ref_counter c + int (Suc n)\<rparr>"
    by simp
  with hs copy_returns [OF Suc.prems(1,2) lt, of h] show ?case
    by simp
qed

lemma dtor_all_releases_once:
  assumes "hs \<noteq> []" and "list_all enable_auto_release hs"
    and "ref_counter c = int (length hs)" and "live c" and "\<not> locked c"
  shows "dtor_all hs c = Returns (1, c\<lparr>ref_counter := 0, live := False\<rparr>)"
  using assms
proof (induction hs arbitrary: c)
  case Nil
  then show ?case by simp
next
  case (Cons h hs)
  from Cons.prems have pos: "INT_MIN < ref_counter c"
    by (simp add: INT_MIN_def)
  note d = dtor_returns [OF Cons.prems(4,5) pos, of h]
  show ?case
  proof (cases "hs = []")
    case True
    with Cons.prems d show ?thesis
      by simp
  next
    case False
    let ?c1 = "c\<lparr>ref_counter := ref_counter c - 1\<rparr>"
    from False Cons.prems have ne: "ref_counter c \<noteq> 1"
      by simp
    with d Cons.prems(4) have d1: "mem_buffer_dtor h c = Returns (False, ?c1)"
      by (cases c) simp
    from False Cons.prems have "dtor_all hs ?c1 = Returns (1, ?c1\<lparr>ref_counter := 0, live := False\<rparr>)"
      by (intro Cons.IH) simp_all
    with d1 show ?thesis
      by simp
  qed
qed

text \<open>
  C2. On a cell that is not released and whose mutex is free:
  \<^item> the copy constructor returns a handle and adds exactly 1 to the shared counter (the
    counter is an \<open>int\<close>, so it must be below \<open>INT_MAX\<close>);
  \<^item> the destructor subtracts exactly 1, and it releases the storage exactly when the
    counter was 1 (so that it becomes 0) and the destroyed handle has auto_release set;
  \<^item> after a construction, making \<open>n\<close> copies of the handle and then destroying the
    original and the \<open>n\<close> copies, in any order, releases the storage exactly once, leaves
    the counter at 0 and the cell released.
\<close>

theorem reference_counting:
  "(live c \<and> \<not> locked c \<and> ref_counter c < INT_MAX \<longrightarrow>
      (\<exists>h'. mem_buffer_copy h c = Returns (h', c\<lparr>ref_counter := ref_counter c + 1\<rparr>)))
   \<and> (live c \<and> \<not> locked c \<and> INT_MIN < ref_counter c \<longrightarrow>
      (\<exists>c'. mem_buffer_dtor h c = Returns (ref_counter c = 1 \<and> enable_auto_release h, c')
         \<and> ref_counter c' = ref_counter c - 1
         \<and> live c' = (\<not> (ref_counter c = 1 \<and> enable_auto_release h))))
   \<and> (mem_buffer_new ptr_ok block_ok cap = Returns (h0, c0) \<and> int n < INT_MAX \<longrightarrow>
      (\<exists>hs c1. copy_n n h0 c0 = Returns (hs, c1) \<and> length hs = n
         \<and> ref_counter c1 = 1 + int n
         \<and> (\<forall>ds. mset ds = mset (h0 # hs) \<longrightarrow>
               (\<exists>c2. dtor_all ds c1 = Returns (1, c2) \<and> ref_counter c2 = 0 \<and> \<not> live c2))))"
proof (intro conjI impI)
  assume "live c \<and> \<not> locked c \<and> ref_counter c < INT_MAX"
  then show "\<exists>h'. mem_buffer_copy h c = Returns (h', c\<lparr>ref_counter := ref_counter c + 1\<rparr>)"
    using copy_returns [of c h] by blast
next
  assume a: "live c \<and> \<not> locked c \<and> INT_MIN < ref_counter c"
  then have "mem_buffer_dtor h c =
      Returns (ref_counter c = 1 \<and> enable_auto_release h,
               c\<lparr>ref_counter := ref_counter c - 1,
                 live := \<not> (ref_counter c = 1 \<and> enable_auto_release h)\<rparr>)"
    using dtor_returns [of c h] by blast
  then show "\<exists>c'. mem_buffer_dtor h c = Returns (ref_counter c = 1 \<and> enable_auto_release h, c')
         \<and> ref_counter c' = ref_counter c - 1
         \<and> live c' = (\<not> (ref_counter c = 1 \<and> enable_auto_release h))"
    by simp
next
  assume a: "mem_buffer_new ptr_ok block_ok cap = Returns (h0, c0) \<and> int n < INT_MAX"
  then have h0: "enable_auto_release h0" and c0: "live c0" "\<not> locked c0" "ref_counter c0 = 1"
    by (auto simp add: mem_buffer_new_def split: if_splits)
  from a c0 have "ref_counter c0 + int n \<le> INT_MAX"
    by simp
  with c0 obtain hs where hs: "copy_n n h0 c0 = Returns (hs, c0\<lparr>ref_counter := ref_counter c0 + int n\<rparr>)"
      "length hs = n" "list_all (\<lambda>k. enable_auto_release k = enable_auto_release h0) hs"
    using copy_n_returns [of c0 n h0] by blast
  let ?c1 = "c0\<lparr>ref_counter := ref_counter c0 + int n\<rparr>"
  have "\<exists>c2. dtor_all ds ?c1 = Returns (1, c2) \<and> ref_counter c2 = 0 \<and> \<not> live c2"
    if ds: "mset ds = mset (h0 # hs)" for ds
  proof -
    from ds have "set ds = set (h0 # hs)"
      by (rule mset_eq_setD)
    with h0 hs(3) have all: "list_all enable_auto_release ds"
      by (auto simp add: list_all_iff)
    from ds have "length ds = length (h0 # hs)"
      by (rule mset_eq_length)
    with hs(2) c0 have len: "ref_counter ?c1 = int (length ds)" and ne: "ds \<noteq> []"
      by auto
    from c0 have "live ?c1" and "\<not> locked ?c1"
      by simp_all
    with ne all len have "dtor_all ds ?c1 = Returns (1, ?c1\<lparr>ref_counter := 0, live := False\<rparr>)"
      by (intro dtor_all_releases_once)
    then show ?thesis
      by simp
  qed
  with hs(1,2) c0 show "\<exists>hs c1. copy_n n h0 c0 = Returns (hs, c1) \<and> length hs = n
         \<and> ref_counter c1 = 1 + int n
         \<and> (\<forall>ds. mset ds = mset (h0 # hs) \<longrightarrow>
               (\<exists>c2. dtor_all ds c1 = Returns (1, c2) \<and> ref_counter c2 = 0 \<and> \<not> live c2))"
    by auto
qed

theorem reference_counting_witness:
  "(\<exists>h'. mem_buffer_copy handle8 cell8 = Returns (h', cell8\<lparr>ref_counter := 2\<rparr>))
   \<and> (\<exists>c'. mem_buffer_dtor handle8 cell8 = Returns (True, c') \<and> ref_counter c' = 0 \<and> \<not> live c')
   \<and> (\<exists>hs c1. copy_n 2 handle8 cell8 = Returns (hs, c1) \<and> length hs = 2 \<and> ref_counter c1 = 3
         \<and> (\<exists>c2. dtor_all (hs @ [handle8]) c1 = Returns (1, c2) \<and> ref_counter c2 = 0 \<and> \<not> live c2))"
proof -
  note t = reference_counting [of cell8 handle8 True True 8 handle8 cell8 2]
  have pre: "live cell8" "\<not> locked cell8" "ref_counter cell8 = 1" "enable_auto_release handle8"
    by (simp_all add: cell8_def handle8_def)
  from t pre have 1: "\<exists>h'. mem_buffer_copy handle8 cell8 = Returns (h', cell8\<lparr>ref_counter := 2\<rparr>)"
    by (simp add: INT_MAX_def)
  from t pre have 2: "\<exists>c'. mem_buffer_dtor handle8 cell8 = Returns (True, c') \<and> ref_counter c' = 0 \<and> \<not> live c'"
    by (simp add: INT_MIN_def)
  from t mem_buffer_new_8 obtain hs c1 where 3: "copy_n 2 handle8 cell8 = Returns (hs, c1)" "length hs = 2"
     "ref_counter c1 = 3"
     "\<forall>ds. mset ds = mset (handle8 # hs) \<longrightarrow>
               (\<exists>c2. dtor_all ds c1 = Returns (1, c2) \<and> ref_counter c2 = 0 \<and> \<not> live c2)"
    by (auto simp add: INT_MAX_def)
  have "mset (hs @ [handle8]) = mset (handle8 # hs)"
    by simp
  with 3(4) have "\<exists>c2. dtor_all (hs @ [handle8]) c1 = Returns (1, c2) \<and> ref_counter c2 = 0 \<and> \<not> live c2"
    by blast
  with 1 2 3(1,2,3) show ?thesis
    by blast
qed

subsection \<open>Writing past the capacity\<close>

text \<open>
  C3. A handle whose growth increment was set to 4 by \<open>auto_expand_size(4)\<close> writes 16
  bytes at offset 0 of the 8-byte buffer. \<open>write\<close> calls \<open>expand()\<close> once, which grows the
  block by the increment to 12 bytes, whatever the write needs; the \<open>memcpy\<close> of 16 bytes
  then leaves the 12-byte block. The call does not end with \<open>off + len \<le> capacity\<close>.
\<close>

theorem write_grows_once_only:
  "buffer_expand True (set_auto_expand_size handle8 4) (cell8\<lparr>locked := True\<rparr>)
     = Returns (True, set_auto_expand_size handle8 4,
                cell8\<lparr>locked := True, storage := [0, 0, 0, 0, 0, 0, 0, 0, 0, 0, 0, 0],
                  capacity := 12\<rparr>)
   \<and> buffer_write_at True (set_auto_expand_size handle8 4) cell8 (replicate 16 1) 16 0
       = Fault OutOfBounds"
  by (simp add: buffer_write_at_def buffer_expand_def write_copy_def memcpy_def Let_def
      set_auto_expand_size_def handle8_def cell8_def replicate4)

subsection \<open>\<open>expand()\<close>\<close>

text \<open>
  \<open>expand()\<close> returns false and leaves the handle and the cell as they were unless both
  auto_release and auto_expand are set. When both are set, the allocation of the new block
  succeeds and \<open>capacity + single_expand_size\<close> fits \<open>size_t\<close>, it returns true, the
  capacity grows by \<open>single_expand_size\<close>, and the new block is the old one followed by
  \<open>single_expand_size\<close> zero bytes.
\<close>

lemma expand_returns:
  "(\<not> (enable_auto_release h \<and> enable_auto_expand h) \<longrightarrow>
      buffer_expand a h c = Returns (False, h, c))
   \<and> (enable_auto_release h \<and> enable_auto_expand h \<and> live c
        \<and> length (storage c) = unat (capacity c)
        \<and> unat (capacity c) + unat (single_expand_size h) < 2 ^ 64 \<longrightarrow>
      (\<exists>c'. buffer_expand True h c = Returns (True, h, c')
         \<and> capacity c' = capacity c + single_expand_size h
         \<and> unat (capacity c') = unat (capacity c) + unat (single_expand_size h)
         \<and> storage c' = storage c @ replicate (unat (single_expand_size h)) 0
         \<and> ref_counter c' = ref_counter c \<and> locked c' = locked c \<and> live c' = live c))"
proof (intro conjI impI)
  assume "\<not> (enable_auto_release h \<and> enable_auto_expand h)"
  then show "buffer_expand a h c = Returns (False, h, c)"
    by (auto simp add: buffer_expand_def)
next
  assume a: "enable_auto_release h \<and> enable_auto_expand h \<and> live c
        \<and> length (storage c) = unat (capacity c)
        \<and> unat (capacity c) + unat (single_expand_size h) < 2 ^ 64"
  then have "unat (capacity c) + unat (single_expand_size h) < 2 ^ LENGTH(64)"
    by simp
  then have sum: "unat (capacity c + single_expand_size h)
      = unat (capacity c) + unat (single_expand_size h)"
    by (rule unat_add_lem [THEN iffD1])
  let ?c' = "c\<lparr>storage := storage c @ replicate (unat (single_expand_size h)) 0,
                capacity := capacity c + single_expand_size h\<rparr>"
  from a sum have "buffer_expand True h c = Returns (True, h, ?c')"
    by (simp add: buffer_expand_def memcpy_def Let_def)
  with sum show "\<exists>c'. buffer_expand True h c = Returns (True, h, c')
         \<and> capacity c' = capacity c + single_expand_size h
         \<and> unat (capacity c') = unat (capacity c) + unat (single_expand_size h)
         \<and> storage c' = storage c @ replicate (unat (single_expand_size h)) 0
         \<and> ref_counter c' = ref_counter c \<and> locked c' = locked c \<and> live c' = live c"
    by simp
qed

text \<open>
  C4. With both flags set, \<open>expand()\<close> does not always return true with the old bytes
  kept. On the buffer that \<open>mem_buffer<> b(8)\<close> constructs, after
  \<open>b.auto_expand_size(SIZE_MAX - 3)\<close> the sum \<open>capacity + single_expand_size\<close> wraps to 4:
  \<open>expand()\<close> allocates 4 bytes and its \<open>memcpy\<close> of the 8 old bytes leaves the new block.
  And when \<open>Allocator::alloc\<close> returns null, \<open>expand()\<close> passes it to \<open>memset\<close>; the
  constructor tests the same result and throws.
\<close>

theorem expand_wrapped_capacity:
  "mem_buffer_new True True 8 = Returns (handle8, cell8)
   \<and> capacity cell8 + single_expand_size (set_auto_expand_size handle8 (- 4)) = 4
   \<and> buffer_expand True (set_auto_expand_size handle8 (- 4)) cell8 = Fault OutOfBounds
   \<and> buffer_expand False handle8 cell8 = Fault NullPointer"
  by (simp add: mem_buffer_new_8 buffer_expand_def memcpy_def Let_def set_auto_expand_size_def
      handle8_def cell8_def)

subsection \<open>Reads and writes that do not fit\<close>

text \<open>
  C5. \<open>read(dst, 4, off)\<close> with \<open>off = 2^64 - 4\<close> on the 8-byte buffer: the range does not
  lie in the buffer, but the sum \<open>len + off\<close> that the code compares with the capacity is
  computed in \<open>size_t\<close> and is 0, so the call is not rejected and \<open>memcpy\<close> reads the 4
  bytes before the block. \<open>back()\<close> followed by \<open>get()\<close> on a new 4-byte-element stream
  makes this call.
\<close>

theorem read_wrapped_range:
  "capacity cell8 = 8 \<and> (4 :: size_t) + (- 4) = 0
   \<and> buffer_read_at handle8 cell8 [0, 0, 0, 0] 4 (- 4) = Fault OutOfBounds
   \<and> mem_stream_new 4 handle8 cell8 = Returns (char32_stream8, shared8)
   \<and> stream_get (stream_back char32_stream8 shared8) shared8 [0, 0, 0, 0] = Fault OutOfBounds"
  by (simp add: buffer_read_at_def memcpy_def Let_def mem_stream_new_def mem_buffer_copy_def
      stream_get_def stream_back_def handle8_def cell8_def char32_stream8_def shared8_def
      INT_MAX_def)

subsection \<open>The cursor of a handle\<close>

text \<open>
  C7. Whenever \<open>read(dst, len)\<close> returns, with true or with false, the handle's position
  is the old one plus \<open>len\<close> (in \<open>size_t\<close>). It returns false, with \<open>dst\<close> and the cell
  untouched, when the code's test rejects the range, and true, with the bytes copied, when
  the range lies in the buffer and \<open>dst\<close> has room for \<open>len\<close> bytes.
\<close>

theorem read_advances_position:
  "(\<forall>r dst' h' c'. buffer_read h c dst len = Returns ((r, dst'), h', c') \<longrightarrow>
       pos h' = pos h + len)
   \<and> (capacity c < len + pos h \<longrightarrow>
       buffer_read h c dst len = Returns ((False, dst), h\<lparr>pos := pos h + len\<rparr>, c))
   \<and> (cell_ok c \<and> unat (pos h) + unat len \<le> unat (capacity c) \<and> unat len \<le> length dst \<longrightarrow>
       buffer_read h c dst len
         = Returns ((True, take (unat len) (drop (unat (pos h)) (storage c)) @ drop (unat len) dst),
                    h\<lparr>pos := pos h + len\<rparr>, c))"
proof (intro conjI impI allI)
  fix r dst' h' c'
  assume "buffer_read h c dst len = Returns ((r, dst'), h', c')"
  then show "pos h' = pos h + len"
    by (auto simp add: buffer_read_def buffer_read_at_def Let_def
        split: if_splits option.splits)
next
  assume "capacity c < len + pos h"
  then show "buffer_read h c dst len = Returns ((False, dst), h\<lparr>pos := pos h + len\<rparr>, c)"
    by (simp add: buffer_read_def buffer_read_at_def)
next
  assume a: "cell_ok c \<and> unat (pos h) + unat len \<le> unat (capacity c) \<and> unat len \<le> length dst"
  then have "\<not> capacity c < len + pos h"
    using in_range_not_over(1) [of "pos h" len "capacity c"] by simp
  with a show "buffer_read h c dst len
         = Returns ((True, take (unat len) (drop (unat (pos h)) (storage c)) @ drop (unat len) dst),
                    h\<lparr>pos := pos h + len\<rparr>, c)"
    by (simp add: buffer_read_def buffer_read_at_def memcpy_def cell_ok_def Let_def unlock_free)
qed

theorem read_advances_position_witness:
  "buffer_read (set_position handle8 6) cell8 [9, 9, 9, 9] 4
     = Returns ((False, [9, 9, 9, 9]), set_position handle8 10, cell8)
   \<and> buffer_read (set_position handle8 2) cell8 [9, 9, 9, 9] 4
     = Returns ((True, [0, 0, 0, 0]), set_position handle8 6, cell8)"
proof -
  have 1: "buffer_read (set_position handle8 6) cell8 [9, 9, 9, 9] 4
     = Returns ((False, [9, 9, 9, 9]), set_position handle8 10, cell8)"
    using read_advances_position [of "set_position handle8 6" cell8 "[9, 9, 9, 9]" 4]
    by (simp add: set_position_def handle8_def cell8_def)
  have 2: "buffer_read (set_position handle8 2) cell8 [9, 9, 9, 9] 4
     = Returns ((True, [0, 0, 0, 0]), set_position handle8 6, cell8)"
    using read_advances_position [of "set_position handle8 2" cell8 "[9, 9, 9, 9]" 4]
    by (simp add: set_position_def handle8_def cell8_def cell_ok_def)
  from 1 2 show ?thesis
    by blast
qed

subsection \<open>\<open>peek()\<close>\<close>

text \<open>
  C8. \<open>peek()\<close> on a new stream of 4-byte elements over the 8-byte buffer returns the first
  element and leaves the position at 3, not at 0: \<open>get()\<close> adds \<open>step\<close> and \<open>pos--\<close>
  takes 1 away. On a stream of 1-byte elements at the end of the buffer (position 8, after
  \<open>forward(8)\<close>), \<open>get()\<close> fails and does not move, \<open>peek()\<close> returns the bytes its
  local happened to hold and leaves the position at 7.
\<close>

theorem peek_moves_position:
  "mem_stream_new 4 handle8 cell8 = Returns (char32_stream8, shared8)
   \<and> spos char32_stream8 = 0
   \<and> stream_peek char32_stream8 shared8 [7, 7, 7, 7]
       = Returns ([0, 0, 0, 0], char32_stream8\<lparr>spos := 3\<rparr>, shared8)
   \<and> mem_stream_new 1 handle8 cell8 = Returns (byte_stream8, shared8)
   \<and> stream_forward_n byte_stream8 shared8 8 = byte_stream8\<lparr>spos := 8, eof_bit := True\<rparr>
   \<and> stream_peek (byte_stream8\<lparr>spos := 8, eof_bit := True\<rparr>) shared8 [7]
       = Returns ([7], byte_stream8\<lparr>spos := 7, eof_bit := True\<rparr>, shared8)"
  by (simp add: buffer_read_at_def memcpy_def Let_def mem_stream_new_def mem_buffer_copy_def
      stream_peek_def stream_get_value_def stream_get_def stream_forward_n_def
      handle8_def cell8_def char32_stream8_def byte_stream8_def shared8_def INT_MAX_def)

subsection \<open>Position and end marker of a stream\<close>

lemmas stream_eval = buffer_read_at_def buffer_write_at_def write_copy_def memcpy_def Let_def
  mem_stream_new_def mem_buffer_copy_def stream_put_def eof_def stream_get_def
  stream_forward_n_def handle8_def cell8_def INT_MAX_def byte_stream8_def shared8_def

text \<open>
  C9, as stated, fails on the 1-byte-element stream of the 8-byte buffer:
  \<^item> \<open>put\<close> at position 7 leaves the position at 8, the capacity, and \<open>eof()\<close> false
    (\<open>put\<close> does not touch the end marker);
  \<^item> \<open>get\<close> at position 8 returns false and leaves the position at 8: it does not
    advance by one element (it sets the end marker);
  \<^item> once the end marker is set and the buffer has grown to 10 bytes through another
    handle, \<open>get\<close> at position 8 leaves the position at 9, below the capacity, and
    \<open>eof()\<close> still true.
\<close>

theorem put_and_failed_get_counterexample:
  "mem_stream_new 1 handle8 cell8 = Returns (byte_stream8, shared8)
   \<and> stream_forward_n byte_stream8 shared8 7 = byte_stream8\<lparr>spos := 7\<rparr>
   \<and> stream_put True (byte_stream8\<lparr>spos := 7\<rparr>) shared8 [1]
       = Returns (True, byte_stream8\<lparr>spos := 8\<rparr>, shared8\<lparr>storage := [0, 0, 0, 0, 0, 0, 0, 1]\<rparr>)
   \<and> capacity (shared8\<lparr>storage := [0, 0, 0, 0, 0, 0, 0, 1]\<rparr>) \<le> spos (byte_stream8\<lparr>spos := 8\<rparr>)
   \<and> \<not> eof (byte_stream8\<lparr>spos := 8\<rparr>)
   \<and> stream_get (byte_stream8\<lparr>spos := 8\<rparr>) shared8 [7]
       = Returns ((False, [7]), byte_stream8\<lparr>spos := 8, eof_bit := True\<rparr>, shared8)
   \<and> spos (byte_stream8\<lparr>spos := 8, eof_bit := True\<rparr>) = spos (byte_stream8\<lparr>spos := 8\<rparr>)
   \<and> stream_get (byte_stream8\<lparr>spos := 8, eof_bit := True\<rparr>)
         (shared8\<lparr>capacity := 10, storage := [0, 0, 0, 0, 0, 0, 0, 0, 0, 0]\<rparr>) [7]
       = Returns ((True, [0]), byte_stream8\<lparr>spos := 9, eof_bit := True\<rparr>,
                  shared8\<lparr>capacity := 10, storage := [0, 0, 0, 0, 0, 0, 0, 0, 0, 0]\<rparr>)
   \<and> spos (byte_stream8\<lparr>spos := 9, eof_bit := True\<rparr>)
       < capacity (shared8\<lparr>capacity := 10, storage := [0, 0, 0, 0, 0, 0, 0, 0, 0, 0]\<rparr>)
   \<and> eof (byte_stream8\<lparr>spos := 9, eof_bit := True\<rparr>)"
  by (simp add: stream_eval)

lemma read_at_returns:
  assumes "buffer_read_at h c dst len off = Returns ((r, dst'), h', c')"
  shows "h' = h \<and> c' = c \<and> r = (\<not> capacity c < len + off)"
  using assms
  by (auto simp add: buffer_read_at_def Let_def unlock_free split: if_splits option.splits)

lemma stream_new_returns:
  assumes "mem_stream_new sz h c = Returns (s, c1)"
  shows "spos s = 0 \<and> \<not> eof s \<and> step s = sz"
  using assms
  by (auto simp add: mem_stream_new_def eof_def split: outcome.splits)

lemma stream_get_returns:
  assumes "stream_get s c t = Returns ((r, t'), s', c')"
  shows "spos s' = (if r then spos s + step s else spos s)
         \<and> eof s' = (eof s \<or> capacity c \<le> spos s') \<and> c' = c"
proof (cases "buffer_read_at (buffer s) c t (step s) (spos s)")
  case (Returns x)
  obtain r0 t0 b c1 where x: "x = ((r0, t0), b, c1)"
    by (cases x) auto
  with Returns have "c1 = c"
    by (simp add: read_at_returns)
  with assms Returns x show ?thesis
    by (auto simp add: stream_get_def eof_def Let_def split: if_splits)
next
  case (Throws e x)
  with assms show ?thesis
    by (simp add: stream_get_def)
next
  case (Fault f)
  with assms show ?thesis
    by (simp add: stream_get_def)
qed

lemma stream_put_returns:
  assumes "stream_put a s c t = Returns (r, s', c')"
  shows "spos s' = spos s + step s \<and> eof s' = eof s"
  using assms
  by (auto simp add: stream_put_def eof_def split: outcome.splits)

lemma stream_get_put_in_range:
  assumes "cell_ok c" and "unat (spos s) + unat (step s) \<le> unat (capacity c)"
    and "unat (step s) \<le> length t"
  shows "\<exists>t' s'. stream_get s c t = Returns ((True, t'), s', c)"
    and "\<exists>s' c'. stream_put a s c t = Returns (True, s', c')"
proof -
  from assms(2) have no_over: "\<not> capacity c < step s + spos s"
    by (rule in_range_not_over)
  with assms show "\<exists>t' s'. stream_get s c t = Returns ((True, t'), s', c)"
    by (simp add: stream_get_def buffer_read_at_def memcpy_def cell_ok_def Let_def unlock_free)
  from no_over assms show "\<exists>s' c'. stream_put a s c t = Returns (True, s', c')"
    by (simp add: stream_put_def buffer_write_at_def write_copy_def memcpy_def cell_ok_def Let_def)
qed

lemma stream_get_rejected:
  assumes "capacity c < step s + spos s"
  shows "\<exists>s'. stream_get s c t = Returns ((False, t), s', c)"
  using assms by (simp add: stream_get_def buffer_read_at_def Let_def)

text \<open>
  C9, amended. A stream starts at position 0 with the end marker clear. Whenever \<open>put\<close>
  returns, the position has advanced by \<open>step\<close> (the element size, in \<open>size_t\<close>) and the
  end marker is as it was. Whenever \<open>get\<close> returns, the position has advanced by \<open>step\<close>
  if it returned true and has not moved if it returned false, and the end marker is set
  if the position has reached or passed the capacity and otherwise as it was; \<open>forward()\<close>
  treats the marker the same way. \<open>back()\<close> moves the position back by \<open>step\<close> and clears
  the marker if the new position is below the capacity, otherwise leaves it. \<open>get\<close> and
  \<open>put\<close> return true on an element that lies in the buffer, and \<open>get\<close> returns false on
  one that the bounds check of \<open>read\<close> rejects.
\<close>

theorem stream_position_and_end_marker:
  "(\<forall>s0 c1. mem_stream_new sz h c0 = Returns (s0, c1) \<longrightarrow>
         spos s0 = 0 \<and> \<not> eof s0 \<and> step s0 = sz)
   \<and> (\<forall>r t' s' c'. stream_get s c t = Returns ((r, t'), s', c') \<longrightarrow>
         spos s' = (if r then spos s + step s else spos s)
         \<and> eof s' = (eof s \<or> capacity c \<le> spos s') \<and> c' = c)
   \<and> (\<forall>r s' c'. stream_put a s c t = Returns (r, s', c') \<longrightarrow>
         spos s' = spos s + step s \<and> eof s' = eof s)
   \<and> spos (stream_forward s c) = spos s + step s
   \<and> eof (stream_forward s c) = (eof s \<or> capacity c \<le> spos s + step s)
   \<and> spos (stream_back s c) = spos s - step s
   \<and> eof (stream_back s c) = (eof s \<and> capacity c \<le> spos s - step s)
   \<and> (cell_ok c \<and> unat (spos s) + unat (step s) \<le> unat (capacity c)
        \<and> unat (step s) \<le> length t \<longrightarrow>
         (\<exists>t' s'. stream_get s c t = Returns ((True, t'), s', c))
         \<and> (\<exists>s' c'. stream_put a s c t = Returns (True, s', c')))
   \<and> (capacity c < step s + spos s \<longrightarrow>
         (\<exists>s'. stream_get s c t = Returns ((False, t), s', c)))"
proof -
  have new: "\<forall>s0 c1. mem_stream_new sz h c0 = Returns (s0, c1) \<longrightarrow>
         spos s0 = 0 \<and> \<not> eof s0 \<and> step s0 = sz"
    using stream_new_returns by blast
  have get: "\<forall>r t' s' c'. stream_get s c t = Returns ((r, t'), s', c') \<longrightarrow>
         spos s' = (if r then spos s + step s else spos s)
         \<and> eof s' = (eof s \<or> capacity c \<le> spos s') \<and> c' = c"
    using stream_get_returns by blast
  have put: "\<forall>r s' c'. stream_put a s c t = Returns (r, s', c') \<longrightarrow>
         spos s' = spos s + step s \<and> eof s' = eof s"
    using stream_put_returns by blast
  have fwd: "spos (stream_forward s c) = spos s + step s
       \<and> eof (stream_forward s c) = (eof s \<or> capacity c \<le> spos s + step s)"
    by (simp add: stream_forward_def eof_def Let_def)
  have bck: "spos (stream_back s c) = spos s - step s
       \<and> eof (stream_back s c) = (eof s \<and> capacity c \<le> spos s - step s)"
    by (auto simp add: stream_back_def eof_def Let_def)
  have inr: "cell_ok c \<and> unat (spos s) + unat (step s) \<le> unat (capacity c)
        \<and> unat (step s) \<le> length t \<longrightarrow>
         (\<exists>t' s'. stream_get s c t = Returns ((True, t'), s', c))
         \<and> (\<exists>s' c'. stream_put a s c t = Returns (True, s', c'))"
    using stream_get_put_in_range(1) [of c s t] stream_get_put_in_range(2) [of c s t a] by blast
  have rej: "capacity c < step s + spos s \<longrightarrow>
         (\<exists>s'. stream_get s c t = Returns ((False, t), s', c))"
    using stream_get_rejected by blast
  from new get put fwd bck inr rej show ?thesis
    by blast
qed

theorem stream_position_and_end_marker_witness:
  "mem_stream_new 1 handle8 cell8 = Returns (byte_stream8, shared8)
   \<and> spos byte_stream8 = 0 \<and> \<not> eof byte_stream8
   \<and> cell_ok shared8
   \<and> unat (spos byte_stream8) + unat (step byte_stream8) \<le> unat (capacity shared8)
   \<and> (\<exists>t' s'. stream_get byte_stream8 shared8 [7] = Returns ((True, t'), s', shared8)
          \<and> spos s' = 1 \<and> \<not> eof s')
   \<and> (\<exists>s' c'. stream_put True byte_stream8 shared8 [7] = Returns (True, s', c')
          \<and> spos s' = 1 \<and> \<not> eof s')
   \<and> capacity shared8 < step byte_stream8 + spos (byte_stream8\<lparr>spos := 8\<rparr>)
   \<and> (\<exists>s'. stream_get (byte_stream8\<lparr>spos := 8\<rparr>) shared8 [7] = Returns ((False, [7]), s', shared8)
          \<and> spos s' = 8 \<and> eof s')
   \<and> eof (stream_back (byte_stream8\<lparr>spos := 8, eof_bit := True\<rparr>) shared8) = False"
proof -
  note t1 = stream_position_and_end_marker
    [where sz = 1 and h = handle8 and ?c0.0 = cell8 and c = shared8 and s = byte_stream8
       and t = "[7]" and a = True]
  note t2 = stream_position_and_end_marker
    [where sz = 1 and h = handle8 and ?c0.0 = cell8 and c = shared8
       and s = "byte_stream8\<lparr>spos := 8\<rparr>" and t = "[7]" and a = True]
  note t3 = stream_position_and_end_marker
    [where sz = 1 and h = handle8 and ?c0.0 = cell8 and c = shared8
       and s = "byte_stream8\<lparr>spos := 8, eof_bit := True\<rparr>" and t = "[7]" and a = True]
  have new: "mem_stream_new 1 handle8 cell8 = Returns (byte_stream8, shared8)"
    by (simp add: stream_eval)
  have ok: "cell_ok shared8"
    "unat (spos byte_stream8) + unat (step byte_stream8) \<le> unat (capacity shared8)"
    "unat (step byte_stream8) \<le> length [7 :: byte]"
    "capacity shared8 < step byte_stream8 + spos (byte_stream8\<lparr>spos := 8\<rparr>)"
    by (simp_all add: cell_ok_def shared8_def cell8_def byte_stream8_def)
  have vals: "spos byte_stream8 + step byte_stream8 = 1" "eof byte_stream8 = False"
    "capacity shared8 = 8"
    by (simp_all add: byte_stream8_def eof_def shared8_def cell8_def)
  from t1 new have a: "spos byte_stream8 = 0 \<and> \<not> eof byte_stream8"
    by blast
  from t1 ok(1,2,3) obtain t' s1 where g: "stream_get byte_stream8 shared8 [7] = Returns ((True, t'), s1, shared8)"
    by blast
  with t1 have "spos s1 = (if True then spos byte_stream8 + step byte_stream8 else spos byte_stream8)
      \<and> eof s1 = (eof byte_stream8 \<or> capacity shared8 \<le> spos s1)"
    by blast
  with vals have "spos s1 = 1 \<and> \<not> eof s1"
    by (simp add: word_le_nat_alt)
  with g have b: "\<exists>t' s'. stream_get byte_stream8 shared8 [7] = Returns ((True, t'), s', shared8)
          \<and> spos s' = 1 \<and> \<not> eof s'"
    by blast
  from t1 ok(1,2,3) obtain s2 c2 where p: "stream_put True byte_stream8 shared8 [7] = Returns (True, s2, c2)"
    by blast
  with t1 have "spos s2 = spos byte_stream8 + step byte_stream8 \<and> eof s2 = eof byte_stream8"
    by blast
  with vals have "spos s2 = 1 \<and> \<not> eof s2"
    by simp
  with p have p': "\<exists>s' c'. stream_put True byte_stream8 shared8 [7] = Returns (True, s', c')
          \<and> spos s' = 1 \<and> \<not> eof s'"
    by blast
  from t2 ok(4) obtain s' where s': "stream_get (byte_stream8\<lparr>spos := 8\<rparr>) shared8 [7] = Returns ((False, [7]), s', shared8)"
    by auto
  with t2 have "spos s' = (if False then spos (byte_stream8\<lparr>spos := 8\<rparr>) + step (byte_stream8\<lparr>spos := 8\<rparr>)
         else spos (byte_stream8\<lparr>spos := 8\<rparr>))
       \<and> eof s' = (eof (byte_stream8\<lparr>spos := 8\<rparr>) \<or> capacity shared8 \<le> spos s')"
    by blast
  then have "spos s' = 8 \<and> eof s'"
    by (simp add: shared8_def cell8_def)
  with s' have c: "\<exists>s'. stream_get (byte_stream8\<lparr>spos := 8\<rparr>) shared8 [7] = Returns ((False, [7]), s', shared8)
          \<and> spos s' = 8 \<and> eof s'"
    by blast
  from t3 have "eof (stream_back (byte_stream8\<lparr>spos := 8, eof_bit := True\<rparr>) shared8)
      = (eof (byte_stream8\<lparr>spos := 8, eof_bit := True\<rparr>)
         \<and> capacity shared8 \<le> spos (byte_stream8\<lparr>spos := 8, eof_bit := True\<rparr>)
              - step (byte_stream8\<lparr>spos := 8, eof_bit := True\<rparr>))"
    by blast
  then have d: "eof (stream_back (byte_stream8\<lparr>spos := 8, eof_bit := True\<rparr>) shared8) = False"
    by (simp add: shared8_def cell8_def byte_stream8_def)
  from new a ok(1,2,4) b p' c d show ?thesis
    by blast
qed

subsection \<open>The policy flags\<close>

lemma new_flags:
  assumes "mem_buffer_new ptr_ok block_ok cap = Returns (h, c)"
  shows "enable_auto_release h \<and> enable_auto_expand h"
  using assms by (auto simp add: mem_buffer_new_def split: if_splits)

lemma copy_flags:
  assumes "mem_buffer_copy h c = Returns (h', c')"
  shows "enable_auto_release h' = enable_auto_release h
       \<and> enable_auto_expand h' = enable_auto_expand h"
  using assms by (auto simp add: mem_buffer_copy_def Let_def split: if_splits)

lemma expand_same_handle:
  assumes "buffer_expand a h c = Returns (r, h', c')"
  shows "h' = h"
  using assms
  by (auto simp add: buffer_expand_def Let_def split: if_splits option.splits)

lemma write_copy_same_handle:
  assumes "write_copy h c src len off = Returns (r, h', c')"
  shows "h' = h"
  using assms by (auto simp add: write_copy_def split: option.splits)

lemma write_at_same_handle:
  assumes "buffer_write_at a h c src len off = Returns (r, h', c')"
  shows "h' = h"
proof (cases "buffer_expand a h (c\<lparr>locked := True\<rparr>)")
  case (Returns x)
  obtain r2 h2 c2 where x: "x = (r2, h2, c2)"
    by (cases x) auto
  with Returns have "h2 = h"
    by (simp add: expand_same_handle)
  with assms Returns x show ?thesis
    by (auto simp add: buffer_write_at_def Let_def split: if_splits
        dest: write_copy_same_handle)
next
  case (Throws e x)
  with assms show ?thesis
    by (auto simp add: buffer_write_at_def Let_def split: if_splits
        dest: write_copy_same_handle)
next
  case (Fault f)
  with assms show ?thesis
    by (auto simp add: buffer_write_at_def Let_def split: if_splits
        dest: write_copy_same_handle)
qed

lemma read_flags:
  assumes "buffer_read h c dst len = Returns (r, h', c')"
  shows "enable_auto_release h' = enable_auto_release h
       \<and> enable_auto_expand h' = enable_auto_expand h"
proof (cases "buffer_read_at h c dst len (pos h)")
  case (Returns x)
  obtain r1 d1 h1 c1 where x: "x = ((r1, d1), h1, c1)"
    by (cases x) auto
  with Returns have "h1 = h"
    by (simp add: read_at_returns)
  with assms Returns x show ?thesis
    by (auto simp add: buffer_read_def)
qed (use assms in \<open>simp_all add: buffer_read_def\<close>)

lemma write_flags:
  assumes "buffer_write a h c src len = Returns (r, h', c')"
  shows "enable_auto_release h' = enable_auto_release h
       \<and> enable_auto_expand h' = enable_auto_expand h"
proof (cases "buffer_write_at a h c src len (pos h)")
  case (Returns x)
  obtain r1 h1 c1 where x: "x = (r1, h1, c1)"
    by (cases x) auto
  with Returns have "h1 = h"
    by (simp add: write_at_same_handle)
  with assms Returns x show ?thesis
    by (auto simp add: buffer_write_def)
qed (use assms in \<open>simp_all add: buffer_write_def\<close>)

lemma state_of_Returns:
  "state_of x = Returns (h, c) \<longleftrightarrow> (\<exists>r. x = Returns (r, h, c))"
  by (cases x rule: state_of.cases) auto

lemma call_buffer_flags:
  assumes "call_buffer call h c = Returns (h', c')"
  shows "enable_auto_release h' = enable_auto_release h
       \<and> enable_auto_expand h' = enable_auto_expand h"
proof (cases call)
  case (Read_at dst len off)
  with assms show ?thesis
    by (auto simp add: state_of_Returns dest: read_at_returns)
next
  case (Read dst len)
  with assms show ?thesis
    by (auto simp add: state_of_Returns dest: read_flags)
next
  case (Read_value t)
  with assms show ?thesis
    by (auto simp add: state_of_Returns buffer_read_value_def dest: read_flags)
next
  case (Write_at a src len off)
  with assms show ?thesis
    by (auto simp add: state_of_Returns dest: write_at_same_handle)
next
  case (Write a src len)
  with assms show ?thesis
    by (auto simp add: state_of_Returns dest: write_flags)
next
  case (Write_value a t)
  with assms show ?thesis
    by (auto simp add: state_of_Returns buffer_write_value_def dest: write_flags)
next
  case (Set_auto_expand_size n)
  with assms show ?thesis
    by (auto simp add: set_auto_expand_size_def)
next
  case (Set_position p)
  with assms show ?thesis
    by (auto simp add: set_position_def)
next
  case Rewind
  with assms show ?thesis
    by (auto simp add: rewind_def)
next
  case (Expand a)
  with assms show ?thesis
    by (auto simp add: state_of_Returns dest: expand_same_handle)
qed


lemma stream_get_buffer:
  assumes "stream_get s c t = Returns (r, s', c')"
  shows "buffer s' = buffer s"
proof (cases "buffer_read_at (buffer s) c t (step s) (spos s)")
  case (Returns x)
  obtain r1 d1 h1 c1 where x: "x = ((r1, d1), h1, c1)"
    by (cases x) auto
  with Returns have "h1 = buffer s"
    by (simp add: read_at_returns)
  with assms Returns x show ?thesis
    by (auto simp add: stream_get_def Let_def split: if_splits)
qed (use assms in \<open>simp_all add: stream_get_def\<close>)

lemma stream_get_value_buffer:
  assumes "stream_get_value s c t0 = Returns (t, s', c')"
  shows "buffer s' = buffer s"
  using assms
  by (auto simp add: stream_get_value_def split: outcome.splits dest: stream_get_buffer)

lemma stream_peek_buffer:
  assumes "stream_peek s c t0 = Returns (t, s', c')"
  shows "buffer s' = buffer s"
  using assms
  by (auto simp add: stream_peek_def split: outcome.splits dest: stream_get_value_buffer)

lemma stream_moves_buffer:
  "buffer (stream_forward s c) = buffer s"
  "buffer (stream_forward_n s c len) = buffer s"
  "buffer (stream_back s c) = buffer s"
  "buffer (stream_back_n s c len) = buffer s"
  "buffer (stream_reset s) = buffer s"
  by (simp_all add: stream_forward_def stream_forward_n_def stream_back_def stream_back_n_def
      stream_reset_def Let_def)

lemma stream_peek_n_buffer:
  assumes "stream_peek_n s c t0 len = Returns (t, s', c')"
  shows "buffer s' = buffer s"
  using assms
  by (auto simp add: stream_peek_n_def stream_moves_buffer split: outcome.splits
      dest!: stream_get_value_buffer)

lemma stream_put_buffer:
  assumes "stream_put a s c t = Returns (r, s', c')"
  shows "buffer s' = buffer s"
  using assms
  by (auto simp add: stream_put_def split: outcome.splits dest: write_at_same_handle)

lemma call_stream_buffer:
  assumes "call_stream scall s c = Returns (s', c')"
  shows "buffer s' = buffer s"
  using assms
  by (cases scall)
    (auto simp add: state_of_Returns stream_moves_buffer
      dest: stream_get_buffer stream_get_value_buffer stream_peek_buffer stream_peek_n_buffer
        stream_put_buffer)

lemma stream_new_flags:
  assumes "mem_stream_new sz h c = Returns (s, c')"
  shows "enable_auto_release (buffer s) = enable_auto_release h
       \<and> enable_auto_expand (buffer s) = enable_auto_expand h"
  using assms
  by (auto simp add: mem_stream_new_def split: outcome.splits dest: copy_flags)

lemma stream_copy_flags:
  assumes "mem_stream_copy s c = Returns (s', c')"
  shows "enable_auto_release (buffer s') = enable_auto_release (buffer s)
       \<and> enable_auto_expand (buffer s') = enable_auto_expand (buffer s)"
  using assms
  by (auto simp add: mem_stream_copy_def split: outcome.splits dest: copy_flags)

lemma reachable_flags:
  assumes "reachable w"
  shows "(\<forall>h \<in> set (handles w). enable_auto_release h \<and> enable_auto_expand h)
       \<and> (\<forall>s \<in> set (streams w). enable_auto_release (buffer s) \<and> enable_auto_expand (buffer s))"
  using assms
proof (induction rule: reachable.induct)
  case (construct ptr_ok block_ok cap h c)
  then show ?case
    by (auto dest: new_flags)
next
  case (copy w i h c)
  from copy.hyps(2) have "handles w ! i \<in> set (handles w)"
    by simp
  with copy.IH copy_flags [OF copy.hyps(3)] show ?case
    by auto
next
  case (new_stream w i sz s c)
  from new_stream.hyps(2) have "handles w ! i \<in> set (handles w)"
    by simp
  with new_stream.IH stream_new_flags [OF new_stream.hyps(3)] show ?case
    by auto
next
  case (copy_stream w j s c)
  from copy_stream.hyps(2) have "streams w ! j \<in> set (streams w)"
    by simp
  with copy_stream.IH stream_copy_flags [OF copy_stream.hyps(3)] show ?case
    by auto
next
  case (buffer_returns w i call h c)
  from buffer_returns.hyps(2) have "handles w ! i \<in> set (handles w)"
    by simp
  with buffer_returns.IH call_buffer_flags [OF buffer_returns.hyps(3)]
  have "enable_auto_release h \<and> enable_auto_expand h"
    by auto
  with buffer_returns.IH show ?case
    by (auto dest: set_update_subset_insert [THEN subsetD])
next
  case (buffer_throws w i call e c)
  then show ?case by simp
next
  case (stream_returns w j scall s c)
  from stream_returns.hyps(2) have "streams w ! j \<in> set (streams w)"
    by simp
  with stream_returns.IH call_stream_buffer [OF stream_returns.hyps(3)]
  have "enable_auto_release (buffer s) \<and> enable_auto_expand (buffer s)"
    by auto
  with stream_returns.IH show ?case
    by (auto dest: set_update_subset_insert [THEN subsetD])
next
  case (stream_throws w j scall e c)
  then show ?case by simp
next
  case (destroy w i r c)
  then show ?case
    by (auto dest: in_set_takeD in_set_dropD)
next
  case (destroy_stream w j r c)
  then show ?case
    by (auto dest: in_set_takeD in_set_dropD)
qed

lemma expand_flags_on:
  assumes "enable_auto_release h" and "enable_auto_expand h"
  shows "buffer_expand a h c \<noteq> Returns (False, h', c')"
    and "buffer_expand a h c \<noteq> Throws e x"
  using assms
  by (auto simp add: buffer_expand_def Let_def split: option.splits)

lemma write_flags_on:
  assumes "enable_auto_expand h"
  shows "buffer_write_at a h c src len off \<noteq> Throws e x"
proof (cases "buffer_expand a h (c\<lparr>locked := True\<rparr>)")
  case (Returns y)
  then show ?thesis
    using assms
    by (auto simp add: buffer_write_at_def write_copy_def Let_def split: option.splits prod.splits)
next
  case (Throws e' x')
  then show ?thesis
    by (auto simp add: buffer_expand_def Let_def split: if_splits option.splits)
next
  case (Fault f)
  then show ?thesis
    using assms
    by (auto simp add: buffer_write_at_def write_copy_def Let_def split: option.splits)
qed

text \<open>
  C10. In every reachable state, every handle, and the handle inside every stream, has
  auto_release and auto_expand set: the constructor sets them, the copy constructor copies
  them, and no call changes them. So on such a handle \<open>expand()\<close> never returns false, and
  \<open>write\<close> never throws.
\<close>

theorem policy_flags_always_set:
  assumes "reachable w"
  shows "\<forall>h \<in> set (handles w) \<union> buffer ` set (streams w).
           enable_auto_release h \<and> enable_auto_expand h
           \<and> (\<forall>a h' c'. buffer_expand a h (shared w) \<noteq> Returns (False, h', c'))
           \<and> (\<forall>a src len off e x. buffer_write_at a h (shared w) src len off \<noteq> Throws e x)"
proof
  fix h
  assume "h \<in> set (handles w) \<union> buffer ` set (streams w)"
  with reachable_flags [OF assms] have on: "enable_auto_release h" "enable_auto_expand h"
    by auto
  then show "enable_auto_release h \<and> enable_auto_expand h
           \<and> (\<forall>a h' c'. buffer_expand a h (shared w) \<noteq> Returns (False, h', c'))
           \<and> (\<forall>a src len off e x. buffer_write_at a h (shared w) src len off \<noteq> Throws e x)"
    using expand_flags_on(1) [OF on] write_flags_on [OF on(2)] by blast
qed

theorem policy_flags_always_set_witness:
  "reachable \<lparr>handles = [handle8], streams = [byte_stream8], shared = shared8\<rparr>
   \<and> enable_auto_release handle8 \<and> enable_auto_expand handle8
   \<and> enable_auto_release (buffer byte_stream8) \<and> enable_auto_expand (buffer byte_stream8)
   \<and> buffer_expand True handle8 shared8 \<noteq> Returns (False, handle8, shared8)
   \<and> buffer_write_at True (buffer byte_stream8) shared8 [1, 2, 3, 4] 4 6
       \<noteq> Throws Capacity_full (shared8\<lparr>locked := True\<rparr>)"
proof -
  let ?w0 = "\<lparr>handles = [handle8], streams = [], shared = cell8\<rparr>"
  let ?w1 = "\<lparr>handles = [handle8], streams = [byte_stream8], shared = shared8\<rparr>"
  have "reachable ?w0"
    using mem_buffer_new_8 by (rule reachable.construct)
  moreover have "mem_stream_new 1 (handles ?w0 ! 0) (shared ?w0) = Returns (byte_stream8, shared8)"
    by (simp add: stream_eval)
  ultimately have "reachable (?w0\<lparr>streams := streams ?w0 @ [byte_stream8], shared := shared8\<rparr>)"
    by (intro reachable.new_stream [where i = 0 and sz = 1]) simp_all
  then have r: "reachable ?w1"
    by simp
  from policy_flags_always_set [OF r] r show ?thesis
    by simp
qed

subsection \<open>The throw of \<open>write\<close>\<close>




subsection \<open>The cell in the reachable states\<close>

text \<open>
  In every reachable state the mutex is free and the block \<open>*ptr\<close> has \<open>capacity\<close> bytes,
  so until the destructor releases it the cell satisfies \<open>cell_ok\<close>, the assumption of the
  statements above about reads and writes.
\<close>

lemma copy_shape:
  assumes "mem_buffer_copy h c = Returns (h', c')"
  shows "locked c' = locked c \<and> storage c' = storage c \<and> capacity c' = capacity c"
  using assms by (auto simp add: mem_buffer_copy_def Let_def split: if_splits)

lemma dtor_shape:
  assumes "mem_buffer_dtor h c = Returns (r, c')"
  shows "locked c' = locked c \<and> storage c' = storage c \<and> capacity c' = capacity c"
  using assms by (auto simp add: mem_buffer_dtor_def Let_def split: if_splits)

lemma expand_shape:
  assumes "buffer_expand a h c = Returns (r, h', c')"
    and "length (storage c) = unat (capacity c)"
  shows "locked c' = locked c \<and> length (storage c') = unat (capacity c')"
  using assms
  by (auto simp add: buffer_expand_def memcpy_def Let_def split: if_splits)

lemma write_copy_shape:
  assumes "write_copy h c src len off = Returns (r, h', c')"
    and "length (storage c) = unat (capacity c)"
  shows "\<not> locked c' \<and> length (storage c') = unat (capacity c')"
  using assms
  by (auto simp add: write_copy_def memcpy_def split: if_splits)

lemma write_at_shape:
  assumes "buffer_write_at a h c src len off = Returns (r, h', c')"
    and "length (storage c) = unat (capacity c)"
  shows "\<not> locked c' \<and> length (storage c') = unat (capacity c')"
proof (cases "buffer_expand a h (c\<lparr>locked := True\<rparr>)")
  case (Returns x)
  obtain r2 h2 c2 where x: "x = (r2, h2, c2)"
    by (cases x) auto
  with Returns assms(2) have "length (storage c2) = unat (capacity c2)"
    using expand_shape [of a h "c\<lparr>locked := True\<rparr>" r2 h2 c2] by simp
  with assms Returns x show ?thesis
    by (auto simp add: buffer_write_at_def Let_def split: if_splits dest: write_copy_shape)
next
  case (Throws e x)
  with assms show ?thesis
    by (auto simp add: buffer_write_at_def Let_def split: if_splits dest: write_copy_shape)
next
  case (Fault f)
  with assms show ?thesis
    by (auto simp add: buffer_write_at_def Let_def split: if_splits dest: write_copy_shape)
qed

lemma call_buffer_shape:
  assumes "call_buffer call h c = Returns (h', c')"
    and "\<not> locked c" and "length (storage c) = unat (capacity c)"
  shows "\<not> locked c' \<and> length (storage c') = unat (capacity c')"
proof (cases call)
  case (Read_at dst len off)
  with assms show ?thesis
    by (auto simp add: state_of_Returns dest: read_at_returns)
next
  case (Read dst len)
  with assms show ?thesis
    by (auto simp add: state_of_Returns buffer_read_def split: outcome.splits
        dest: read_at_returns)
next
  case (Read_value t)
  with assms show ?thesis
    by (auto simp add: state_of_Returns buffer_read_value_def buffer_read_def
        split: outcome.splits dest: read_at_returns)
next
  case (Write_at a src len off)
  with assms show ?thesis
    by (auto simp add: state_of_Returns dest: write_at_shape)
next
  case (Write a src len)
  with assms show ?thesis
    by (auto simp add: state_of_Returns buffer_write_def split: outcome.splits
        dest: write_at_shape)
next
  case (Write_value a t)
  with assms show ?thesis
    by (auto simp add: state_of_Returns buffer_write_value_def buffer_write_def
        split: outcome.splits dest: write_at_shape)
next
  case (Expand a)
  with assms show ?thesis
    by (auto simp add: state_of_Returns dest: expand_shape)
qed (use assms in auto)

lemma call_buffer_throws:
  assumes "call_buffer call h c = Throws e c'"
  shows "\<not> enable_auto_expand h"
proof (rule notI)
  assume on: "enable_auto_expand h"
  have rd: "buffer_read_at h c dst len off \<noteq> Throws e c'" for dst len off
    by (auto simp add: buffer_read_at_def Let_def split: option.splits)
  have ex: "buffer_expand a h c \<noteq> Throws e c'" for a
    by (auto simp add: buffer_expand_def Let_def split: option.splits)
  note wr = write_flags_on [OF on, of _ c _ _ _ e c']
  from assms rd ex wr show False
    by (cases call)
      (auto simp add: buffer_read_def buffer_read_value_def buffer_write_def
        buffer_write_value_def
        elim!: state_of.elims split: outcome.splits)
qed


lemma call_stream_shape:
  assumes "call_stream scall s c = Returns (s', c')"
    and "\<not> locked c" and "length (storage c) = unat (capacity c)"
  shows "\<not> locked c' \<and> length (storage c') = unat (capacity c')"
proof (cases scall)
  case (Get t)
  with assms show ?thesis
    by (auto simp add: state_of_Returns dest: stream_get_returns)
next
  case (Get_value t0)
  with assms show ?thesis
    by (auto simp add: state_of_Returns stream_get_value_def split: outcome.splits
        dest: stream_get_returns)
next
  case (Peek t0)
  with assms show ?thesis
    by (auto simp add: state_of_Returns stream_peek_def stream_get_value_def
        split: outcome.splits dest: stream_get_returns)
next
  case (Peek_n t0 len)
  with assms show ?thesis
    by (auto simp add: state_of_Returns stream_peek_n_def stream_get_value_def
        split: outcome.splits dest: stream_get_returns)
next
  case (Put a t)
  with assms show ?thesis
    by (auto simp add: state_of_Returns stream_put_def split: outcome.splits
        dest: write_at_shape)
qed (use assms in auto)

lemma call_stream_throws:
  assumes "call_stream scall s c = Throws e c'"
  shows "\<not> enable_auto_expand (buffer s)"
proof (rule notI)
  assume on: "enable_auto_expand (buffer s)"
  have rd: "buffer_read_at h c0 dst len off \<noteq> Throws e c'" for h c0 dst len off
    by (auto simp add: buffer_read_at_def Let_def split: option.splits)
  then have gt: "stream_get s0 c0 t \<noteq> Throws e c'" for s0 c0 t
    by (auto simp add: stream_get_def Let_def split: outcome.splits)
  then have gv: "stream_get_value s0 c0 t \<noteq> Throws e c'" for s0 c0 t
    by (auto simp add: stream_get_value_def split: outcome.splits)
  then have pk: "stream_peek s0 c0 t \<noteq> Throws e c'"
    and pn: "stream_peek_n s0 c0 t len \<noteq> Throws e c'" for s0 c0 t len
    by (auto simp add: stream_peek_def stream_peek_n_def split: outcome.splits)
  from write_flags_on [OF on] have pt: "stream_put a s c t \<noteq> Throws e c'" for a t
    by (auto simp add: stream_put_def split: outcome.splits)
  from assms gt gv pk pn pt show False
    by (cases scall) (auto elim!: state_of.elims)
qed

lemma reachable_cell_shape:
  assumes "reachable w"
  shows "\<not> locked (shared w) \<and> length (storage (shared w)) = unat (capacity (shared w))"
  using assms
proof (induction rule: reachable.induct)
  case (construct ptr_ok block_ok cap h c)
  then show ?case
    by (auto simp add: mem_buffer_new_def split: if_splits)
next
  case (copy w i h c)
  then show ?case
    by (auto dest: copy_shape)
next
  case (new_stream w i sz s c)
  then show ?case
    by (auto simp add: mem_stream_new_def split: outcome.splits dest: copy_shape)
next
  case (copy_stream w j s c)
  then show ?case
    by (auto simp add: mem_stream_copy_def split: outcome.splits dest: copy_shape)
next
  case (buffer_returns w i call h c)
  then show ?case
    by (auto dest: call_buffer_shape)
next
  case (buffer_throws w i call e c)
  from buffer_throws.hyps(2) have "handles w ! i \<in> set (handles w)"
    by simp
  with reachable_flags [OF buffer_throws.hyps(1)] call_buffer_throws [OF buffer_throws.hyps(3)]
  show ?case
    by blast
next
  case (stream_returns w j scall s c)
  then show ?case
    by (auto dest: call_stream_shape)
next
  case (stream_throws w j scall e c)
  from stream_throws.hyps(2) have "streams w ! j \<in> set (streams w)"
    by simp
  with reachable_flags [OF stream_throws.hyps(1)] call_stream_throws [OF stream_throws.hyps(3)]
  show ?case
    by blast
next
  case (destroy w i r c)
  then show ?case
    by (auto dest: dtor_shape)
next
  case (destroy_stream w j r c)
  then show ?case
    by (auto dest: dtor_shape)
qed

lemma reachable_cell_ok:
  assumes "reachable w" and "live (shared w)"
  shows "cell_ok (shared w)"
  using reachable_cell_shape [OF assms(1)] assms(2) by (simp add: cell_ok_def)

end
